theory Spec2Isabelle
  imports Complex_Main "HOL-Library.Multiset" "HOL-Library.List_Lexorder" "HOL-Library.Char_ord"
begin

section \<open>Python values shared by the modules\<close>

text \<open>
  A Python \<open>str\<close> is a \<open>string\<close>; one \<open>char\<close> stands for one code point below 256.
  Python integers are \<open>int\<close>. A Python value that is either an object or \<open>None\<close> is an
  \<open>option\<close>. An exception is a value of \<open>py_error\<close>.
\<close>

datatype py_error = IndexError | JSONDecodeError | OtherException

section \<open>The progress record file (main.py, lines 86 to 130)\<close>

text \<open>
  \<open>progress.json\<close> holds one dict, keyed by input path; each entry is a dict with the
  keys \<open>stage\<close>, \<open>completed\<close> and \<open>total\<close>. The file is \<open>None\<close> while
  \<open>os.path.exists(PROGRESS_FILE)\<close> is false. \<open>json.load\<close> after \<open>json.dump\<close> gives the
  dict back, so reading the file is reading the stored map.
\<close>

type_synonym entry = "string \<rightharpoonup> int"
type_synonym progress = "string \<rightharpoonup> entry"
type_synonym progress_file = "progress option"

definition save_progress ::
  "progress_file \<Rightarrow> string \<Rightarrow> int \<Rightarrow> int option \<Rightarrow> int option \<Rightarrow> progress_file" where
  "save_progress file input_path stage completed total0 =
     (let progress = (case file of Some p \<Rightarrow> p | None \<Rightarrow> Map.empty);
          progress = (case progress input_path of
                        None \<Rightarrow> progress(input_path \<mapsto> Map.empty)
                      | Some _ \<Rightarrow> progress);
          e = (case progress input_path of None \<Rightarrow> Map.empty | Some e \<Rightarrow> e);
          e = e(''stage'' \<mapsto> stage);
          e = (case completed of None \<Rightarrow> e | Some c \<Rightarrow> e(''completed'' \<mapsto> c));
          e = (case total0 of None \<Rightarrow> e | Some t \<Rightarrow> e(''total'' \<mapsto> t))
      in Some (progress(input_path \<mapsto> e)))"

definition load_progress :: "progress_file \<Rightarrow> string \<Rightarrow> entry option" where
  "load_progress file input_path =
     (case file of None \<Rightarrow> None | Some progress \<Rightarrow> progress input_path)"

definition delete_progress :: "progress_file \<Rightarrow> string \<Rightarrow> progress_file" where
  "delete_progress file input_path =
     (case file of
        None \<Rightarrow> None
      | Some progress \<Rightarrow>
          Some (case progress input_path of
                  Some _ \<Rightarrow> progress(input_path := None)
                | None \<Rightarrow> progress))"

subsection \<open>Step 3 of \<open>main\<close> (main.py, lines 389 to 416)\<close>

text \<open>
  The assembler (\<open>create_ppt_from_pages\<close> or \<open>save_images_to_pdf\<close>) either writes the
  output or raises; \<open>main\<close> wraps the call in \<open>try ... except Exception\<close>, prints, and
  goes on. The console lines that differ between the two branches are returned with
  the file.
\<close>

datatype assembly = Written | Raised

definition step3 ::
  "progress_file \<Rightarrow> string \<Rightarrow> int \<Rightarrow> assembly \<Rightarrow> progress_file \<times> string list" where
  "step3 file input_path total_pages outcome =
     (let file = save_progress file input_path 2 (Some total_pages) (Some total_pages);
          out = (case outcome of
                   Written \<Rightarrow> [''saved'']
                 | Raised \<Rightarrow> [''Error creating output'']);
          file = save_progress file input_path 3 (Some total_pages) (Some total_pages)
      in (file, out @ [''Progress saved'', ''Done!'']))"

definition stage_of :: "entry option \<Rightarrow> int option" where
  "stage_of r = (case r of None \<Rightarrow> None | Some e \<Rightarrow> e ''stage'')"

section \<open>Images (PIL) and the PDF writer (pdf_processor.py, lines 28 to 55)\<close>

text \<open>
  A PIL image is its mode, its size in pixels (width, height) and its raster content.
  \<open>img.convert('RGB')\<close> returns a copy in the new mode; the argument is not changed.
\<close>

record image =
  mode :: string
  size_px :: "int \<times> int"
  pixels :: "nat list"

definition convert :: "image \<Rightarrow> string \<Rightarrow> image" where
  "convert img m = img\<lparr>mode := m\<rparr>"

text \<open>
  The loop of \<open>save_images_to_pdf\<close>: in the \<open>RGBA\<close> branch the converted copy is bound
  to the loop variable and nothing is appended.
\<close>

fun rgb_loop :: "image list \<Rightarrow> image list \<Rightarrow> image list" where
  "rgb_loop [] rgb_images = rgb_images"
| "rgb_loop (img # rest) rgb_images =
     (if mode img = ''RGBA''
      then (let img = convert img ''RGB'' in rgb_loop rest rgb_images)
      else rgb_loop rest (rgb_images @ [img]))"

text \<open>
  The result is the page list of the PDF written to \<open>output_path\<close>
  (\<open>first.save(..., save_all=True, append_images=rest)\<close>), or \<open>None\<close> when the function
  returns without writing.
\<close>

definition save_images_to_pdf :: "image list \<Rightarrow> image list option" where
  "save_images_to_pdf images =
     (case images of
        [] \<Rightarrow> None
      | first # others \<Rightarrow>
          (case rgb_loop images [] of
             r # rs \<Rightarrow> Some (r # rs)
           | [] \<Rightarrow> Some (convert first ''RGB'' # map (\<lambda>i. convert i ''RGB'') others)))"

section \<open>OCR fragments and text blocks (ocr_client.py, lines 213 to 266)\<close>

text \<open>
  \<open>pytesseract.image_to_data(..., output_type=Output.DICT)\<close> returns columns of equal
  length; row \<open>i\<close> of the columns \<open>text\<close>, \<open>conf\<close>, \<open>left\<close>, \<open>top\<close>, \<open>width\<close>, \<open>height\<close> is
  one fragment. The numeric columns hold Python integers, on which \<open>int(...)\<close> is the
  identity.
\<close>

record fragment =
  frag_text :: string
  frag_conf :: int
  frag_left :: int
  frag_top :: int
  frag_width :: int
  frag_height :: int

record bbox =
  bbox_x :: int
  bbox_y :: int
  bbox_width :: int
  bbox_height :: int

record font =
  font_family :: string
  font_size :: rat
  font_weight :: string
  font_color :: string

record text_block =
  block_text :: string
  block_bbox :: bbox
  block_font :: font

text \<open>
  \<open>str.strip()\<close> removes the characters for which \<open>str.isspace\<close> holds from both ends;
  below code point 256 these are 9 to 13, 28 to 32, 133 and 160.
\<close>

definition isspace :: "char \<Rightarrow> bool" where
  "isspace c = (let n = (of_char c :: nat)
                in (9 \<le> n \<and> n \<le> 13) \<or> (28 \<le> n \<and> n \<le> 32) \<or> n = 133 \<or> n = 160)"

definition strip :: "string \<Rightarrow> string" where
  "strip s = rev (dropWhile isspace (rev (dropWhile isspace s)))"

text \<open>
  \<open>round(h * 0.75, 1)\<close>: for an integer \<open>h\<close> the product is a multiple of a quarter, which
  a float holds exactly, and \<open>round\<close> to one decimal rounds the exact value, a tie to the
  even digit. The size is kept as the decimal number that \<open>round\<close> returns.
\<close>

definition round_half_even :: "rat \<Rightarrow> int" where
  "round_half_even q =
     (let f = \<lfloor>q\<rfloor>; r = q - of_int f
      in if r < 1 / 2 then f else if 1 / 2 < r then f + 1 else if even f then f else f + 1)"

definition py_round1 :: "rat \<Rightarrow> rat" where
  "py_round1 q = of_int (round_half_even (q * 10)) / 10"

text \<open>
  One pass of the loop body for a fragment, in an image of \<open>width\<close> by \<open>height\<close> pixels:
  \<open>None\<close> is the \<open>continue\<close>, \<open>Some\<close> the block that is appended.
\<close>

definition fragment_block :: "int \<Rightarrow> int \<Rightarrow> fragment \<Rightarrow> text_block option" where
  "fragment_block width height f =
     (let text = strip (frag_text f);
          confidence = frag_conf f
      in if text = [] \<or> confidence < 60 then None
         else
           (let x = frag_left f;
                y = frag_top f;
                w = frag_width f;
                h = frag_height f;
                x = max 0 x;
                y = max 0 y;
                w = min (width - x) w;
                h = min (height - y) h;
                font_size = py_round1 (of_int h * (3 / 4))
            in Some \<lparr>block_text = text,
                     block_bbox = \<lparr>bbox_x = x, bbox_y = y, bbox_width = w, bbox_height = h\<rparr>,
                     block_font = \<lparr>font_family = ''Arial'', font_size = font_size,
                                   font_weight = ''normal'', font_color = ''#000000''\<rparr>\<rparr>))"

fun ocr_loop :: "int \<Rightarrow> int \<Rightarrow> fragment list \<Rightarrow> text_block list \<Rightarrow> text_block list" where
  "ocr_loop width height [] text_blocks = text_blocks"
| "ocr_loop width height (f # fs) text_blocks =
     (case fragment_block width height f of
        None \<Rightarrow> ocr_loop width height fs text_blocks
      | Some text_block \<Rightarrow> ocr_loop width height fs (text_blocks @ [text_block]))"

definition raw_text_blocks :: "int \<Rightarrow> int \<Rightarrow> fragment list \<Rightarrow> text_block list" where
  "raw_text_blocks width height fs = ocr_loop width height fs []"

text \<open>A picture of 2 by 2 pixels in a given mode, for the examples.\<close>

definition pic :: "string \<Rightarrow> nat \<Rightarrow> image" where
  "pic m n = \<lparr>mode = m, size_px = (2, 2), pixels = [n]\<rparr>"

text \<open>A fragment from its six columns, for the examples.\<close>

definition frag :: "string \<Rightarrow> int \<Rightarrow> int \<Rightarrow> int \<Rightarrow> int \<Rightarrow> int \<Rightarrow> fragment" where
  "frag t c l tp w h = \<lparr>frag_text = t, frag_conf = c, frag_left = l, frag_top = tp,
                        frag_width = w, frag_height = h\<rparr>"

section \<open>Merging text blocks with the AI service (ocr_client.py, lines 39 to 161)\<close>

text \<open>
  What the program prints or waits for, where a claim is about it: a call of the remote
  service in attempt \<open>n\<close>, \<open>time.sleep(s)\<close>, and the message of line 141 with the two
  counts it shows.
\<close>

datatype event = Call nat | Sleep nat | FixAttempt int int

text \<open>A value returned by \<open>json.loads\<close>.\<close>

datatype json =
  JNull
| JBool bool
| JNumber rat
| JString string
| JArray "json list"
| JObject "(string \<times> json) list"

text \<open>\<open>len(v)\<close>: defined on strings, lists and dicts; a \<open>TypeError\<close> on the rest.\<close>

fun py_len :: "json \<Rightarrow> nat option" where
  "py_len (JString s) = Some (length s)"
| "py_len (JArray vs) = Some (length vs)"
| "py_len (JObject kvs) = Some (length kvs)"
| "py_len _ = None"

text \<open>
  \<open>s.partition(sep)\<close> at the first occurrence of \<open>sep\<close>, from the left: the text before
  it and the text after it, or \<open>None\<close> when \<open>sep\<close> does not occur. \<open>sep in s\<close> holds when
  there is an occurrence.
\<close>

fun partition_str :: "string \<Rightarrow> string \<Rightarrow> (string \<times> string) option" where
  "partition_str sep [] = (if sep = [] then Some ([], []) else None)"
| "partition_str sep (c # cs) =
     (if take (length sep) (c # cs) = sep then Some ([], drop (length sep) (c # cs))
      else (case partition_str sep cs of
              None \<Rightarrow> None
            | Some (before, after) \<Rightarrow> Some (c # before, after)))"

definition contains :: "string \<Rightarrow> string \<Rightarrow> bool" where
  "contains sep s = (partition_str sep s \<noteq> None)"

text \<open>\<open>s.split(sep)\<close> for a separator that is not empty (Python raises on an empty one).\<close>

function split_str :: "string \<Rightarrow> string \<Rightarrow> string list" where
  "split_str s sep =
     (if sep = [] then [s]
      else (case partition_str sep s of
              None \<Rightarrow> [s]
            | Some (before, after) \<Rightarrow> before # split_str after sep))"
  by pat_completeness auto
termination
proof (relation "measure (\<lambda>(s, sep). length s)")
  show "wf (measure (\<lambda>(s, sep). length s))" by simp
next
  fix s sep :: string and x2 x y
  assume a: "sep \<noteq> []" "partition_str sep s = Some x2" "(x, y) = x2"
  have len: "partition_str sep t = Some (b, y) \<Longrightarrow> length b + length sep + length y = length t"
    for t b
  proof (induction t arbitrary: b)
    case Nil
    then show ?case by (simp split: if_splits)
  next
    case (Cons c cs)
    show ?case
    proof (cases "take (length sep) (c # cs) = sep")
      case True
      then have "length (take (length sep) (c # cs)) = length sep"
        by (rule arg_cong)
      then have "length sep \<le> length (c # cs)"
        by (simp only: length_take)
      with True Cons.prems show ?thesis by auto
    next
      case False
      with Cons.prems obtain b' where "partition_str sep cs = Some (b', y)" "b = c # b'"
        by (auto split: option.splits)
      with Cons.IH show ?thesis by auto
    qed
  qed
  from a have "length x + length sep + length y = length s"
    using len [of s x] by simp
  with \<open>sep \<noteq> []\<close> show "((y, sep), (s, sep)) \<in> measure (\<lambda>(s, sep). length s)"
    by (cases sep) auto
qed

text \<open>\<open>xs[i]\<close> on a list: an \<open>IndexError\<close> out of range.\<close>

definition getitem :: "'a list \<Rightarrow> nat \<Rightarrow> py_error + 'a" where
  "getitem xs i = (if i < length xs then Inr (xs ! i) else Inl IndexError)"

text \<open>
  Lines 110 to 116: the text between the first code fence and the next one, stripped;
  a response without a fence is only stripped.
\<close>

definition between_fences :: "string \<Rightarrow> string \<Rightarrow> py_error + string" where
  "between_fences content fence =
     (case getitem (split_str content fence) 1 of
        Inl e \<Rightarrow> Inl e
      | Inr part \<Rightarrow>
          (case getitem (split_str part ''```'') 0 of
             Inl e \<Rightarrow> Inl e
           | Inr inner \<Rightarrow> Inr (strip inner)))"

definition unfence :: "string \<Rightarrow> py_error + string" where
  "unfence content =
     (case (if contains ''```json'' content then between_fences content ''```json''
            else if contains ''```'' content then between_fences content ''```''
            else Inr content) of
        Inl e \<Rightarrow> Inl e
      | Inr content \<Rightarrow> Inr (strip content))"

text \<open>
  Lines 128 to 138: the counts are taken from the unchanged text, then braces are
  appended, then brackets. \<open>s.count(c)\<close> is the number of occurrences of the character.
\<close>

definition count_char :: "string \<Rightarrow> char \<Rightarrow> int" where
  "count_char s c = int (count_list s c)"

definition fix_truncated :: "string \<Rightarrow> string \<times> event" where
  "fix_truncated content =
     (let content_fixed = content;
          open_brackets = count_char content_fixed CHR ''['' - count_char content_fixed CHR '']'';
          open_braces = count_char content_fixed CHR ''{'' - count_char content_fixed CHR ''}'';
          content_fixed = (if open_braces > 0
                           then content_fixed @ replicate (nat open_braces) CHR ''}''
                           else content_fixed);
          content_fixed = (if open_brackets > 0
                           then content_fixed @ replicate (nat open_brackets) CHR '']''
                           else content_fixed)
      in (content_fixed, FixAttempt open_braces open_brackets))"

text \<open>
  \<open>json.loads\<close> is Python's library: \<open>loads strict s\<close> is the parsed value, or \<open>None\<close> for
  a \<open>JSONDecodeError\<close>. Lines 119 to 142.
\<close>

definition parse_content ::
  "(bool \<Rightarrow> string \<Rightarrow> json option) \<Rightarrow> string \<Rightarrow> (py_error + json) \<times> event list" where
  "parse_content loads content =
     (case loads True content of
        Some merged_blocks \<Rightarrow> (Inr merged_blocks, [])
      | None \<Rightarrow>
          (case loads False content of
             Some merged_blocks \<Rightarrow> (Inr merged_blocks, [])
           | None \<Rightarrow>
               (let (content_fixed, msg) = fix_truncated content
                in (case loads False content_fixed of
                      Some merged_blocks \<Rightarrow> (Inr merged_blocks, [msg])
                    | None \<Rightarrow> (Inl JSONDecodeError, [msg])))))"

text \<open>
  The reply of \<open>chat.completions.create\<close>: the call (or reading
  \<open>choices[0].message.content\<close> from its result) raises, or there is a message whose
  content is a string or \<open>None\<close>. One attempt is the body of the \<open>try\<close>: \<open>Inr\<close> is the value
  that \<open>return merged_blocks\<close> returns, \<open>Inl\<close> the exception that one of the two handlers
  catches (slicing a \<open>None\<close> content and \<open>len\<close> of a number raise as well).
\<close>

datatype reply = CallRaises | Reply "string option"

definition merge_attempt ::
  "(bool \<Rightarrow> string \<Rightarrow> json option) \<Rightarrow> reply \<Rightarrow> (py_error + json) \<times> event list" where
  "merge_attempt loads r =
     (case r of
        CallRaises \<Rightarrow> (Inl OtherException, [])
      | Reply None \<Rightarrow> (Inl OtherException, [])
      | Reply (Some content) \<Rightarrow>
          (case unfence content of
             Inl e \<Rightarrow> (Inl e, [])
           | Inr content \<Rightarrow>
               (case parse_content loads content of
                  (Inl e, out) \<Rightarrow> (Inl e, out)
                | (Inr merged_blocks, out) \<Rightarrow>
                    (case py_len merged_blocks of
                       None \<Rightarrow> (Inl OtherException, out)
                     | Some n \<Rightarrow> (Inr merged_blocks, out)))))"

text \<open>
  The value \<open>merge_text_blocks\<close> returns: the list it was given, or the parsed reply.
\<close>

datatype blocks = Fragments "text_block list" | Merged json

function merge_loop ::
  "(bool \<Rightarrow> string \<Rightarrow> json option) \<Rightarrow> (nat \<Rightarrow> reply) \<Rightarrow> text_block list \<Rightarrow> nat \<Rightarrow> nat
   \<Rightarrow> blocks \<times> event list" where
  "merge_loop loads chat text_blocks max_retries attempt =
     (if attempt < max_retries
      then (case merge_attempt loads (chat attempt) of
              (Inr merged_blocks, out) \<Rightarrow> (Merged merged_blocks, Call attempt # out)
            | (Inl e, out) \<Rightarrow>
                (let pause = (if int attempt < int max_retries - 1 then [Sleep 1] else []);
                     (result, later) =
                        merge_loop loads chat text_blocks max_retries (attempt + 1)
                 in (result, Call attempt # out @ pause @ later)))
      else (Fragments text_blocks, []))"
  by pat_completeness auto
termination
  by (relation "measure (\<lambda>(loads, chat, text_blocks, max_retries, attempt).
                            max_retries - attempt)") auto

definition merge_text_blocks ::
  "bool \<Rightarrow> (bool \<Rightarrow> string \<Rightarrow> json option) \<Rightarrow> (nat \<Rightarrow> reply) \<Rightarrow> text_block list
   \<Rightarrow> blocks \<times> event list" where
  "merge_text_blocks openai_client loads chat text_blocks =
     (if \<not> openai_client \<or> text_blocks = [] then (Fragments text_blocks, [])
      else merge_loop loads chat text_blocks 3 0)"

declare split_str.simps [simp del]

declare merge_loop.simps [simp del]

section \<open>Finding the image URL (utils.py, lines 15 to 24)\<close>

text \<open>
  The pattern is \<open>http[s]?://\<close> followed by one or more of: a letter, a digit, a
  character of \<open>[$-_@.&+]\<close> (the range from \<open>$\<close> to \<open>_\<close>, and four single
  characters), a character of \<open>[!*\\(\\),]\<close>, or \<open>%\<close> with two hex digits. The last
  alternative adds nothing: \<open>%\<close> and the hex digits are in the earlier classes, so the
  repetition matches the longest run of characters of the classes.
\<close>

definition url_char :: "char \<Rightarrow> bool" where
  "url_char c =
     (let n = (of_char c :: nat)
      in (97 \<le> n \<and> n \<le> 122) \<or> (65 \<le> n \<and> n \<le> 90)
         \<or> (48 \<le> n \<and> n \<le> 57)
         \<or> (36 \<le> n \<and> n \<le> 95) \<or> c \<in> set ''@.&+''
         \<or> c \<in> set ''!*(),'' \<or> n = 92)"

text \<open>A match of the pattern at the start of the text.\<close>

definition match_url :: "string \<Rightarrow> string option" where
  "match_url s =
     (if take 4 s = ''http''
      then (let r = drop 4 s;
                (scheme, r) = (if take 1 r = ''s'' then (''https'', drop 1 r) else (''http'', r))
            in if take 3 r = ''://''
               then (let body = takeWhile url_char (drop 3 r)
                     in if body = [] then None else Some (scheme @ ''://'' @ body))
               else None)
      else None)"

text \<open>\<open>re.findall\<close> scans from the left; \<open>urls[0]\<close> is the match at the first position
  that has one.\<close>

fun first_url :: "string \<Rightarrow> string option" where
  "first_url [] = None"
| "first_url (c # cs) =
     (case match_url (c # cs) of
        Some url \<Rightarrow> Some url
      | None \<Rightarrow> first_url cs)"

definition extract_url_from_text :: "string \<Rightarrow> string option" where
  "extract_url_from_text t =
     (case first_url t of
        None \<Rightarrow> None
      | Some url \<Rightarrow> Some (if url \<noteq> [] \<and> last url = CHR '')'' then butlast url else url))"

section \<open>Background regeneration with retries (main.py, lines 38 to 63 and 333 to 350)\<close>

text \<open>
  The remote side of one page: \<open>client img n\<close> is what \<open>client.process_image\<close> returns
  in attempt \<open>n\<close> for the encoded image (\<open>None\<close> when the call fails, else the text of
  the stream), and \<open>download n url\<close> what \<open>download_image_from_url\<close> returns then.
  \<open>attempt_image\<close> is the body of one pass of the loop: the image that the pass returns,
  or \<open>None\<close> when the loop goes on. An empty string and \<open>None\<close> are both false in \<open>if\<close>.
\<close>

definition attempt_image ::
  "(image \<Rightarrow> nat \<Rightarrow> string option) \<Rightarrow> (nat \<Rightarrow> string \<Rightarrow> image option) \<Rightarrow> image \<Rightarrow> nat
   \<Rightarrow> image option" where
  "attempt_image client download img attempt =
     (case client img attempt of
        None \<Rightarrow> None
      | Some result_text \<Rightarrow>
          if result_text = [] then None
          else (case extract_url_from_text result_text of
                  None \<Rightarrow> None
                | Some url \<Rightarrow>
                    if url = [] then None
                    else download attempt url))"

function retry_loop ::
  "(image \<Rightarrow> nat \<Rightarrow> string option) \<Rightarrow> (nat \<Rightarrow> string \<Rightarrow> image option) \<Rightarrow> image \<Rightarrow> nat \<Rightarrow> nat
   \<Rightarrow> image option \<times> event list" where
  "retry_loop client download img max_retries attempt =
     (if attempt < max_retries
      then (let pause = (if attempt > 0 then [Sleep 2] else [])
            in (case attempt_image client download img attempt of
                  Some new_img \<Rightarrow> (Some new_img, pause @ [Call attempt])
                | None \<Rightarrow>
                    (let (result, later) =
                           retry_loop client download img max_retries (attempt + 1)
                     in (result, pause @ [Call attempt] @ later))))
      else (None, []))"
  by pat_completeness auto
termination
  by (relation "measure (\<lambda>(client, download, img, max_retries, attempt).
                            max_retries - attempt)") auto

declare retry_loop.simps [simp del]

definition process_page_with_retry ::
  "(image \<Rightarrow> nat \<Rightarrow> string option) \<Rightarrow> (nat \<Rightarrow> string \<Rightarrow> image option) \<Rightarrow> image \<Rightarrow> nat
   \<Rightarrow> image option \<times> event list" where
  "process_page_with_retry client download img max_retries =
     retry_loop client download img max_retries 0"

text \<open>
  \<open>process_image_gen\<close> calls \<open>process_page_with_retry(client, img)\<close> with the default
  budget of 5 and returns \<open>(index, new_img)\<close>; the events of the retries come with it.
\<close>

definition process_image_gen ::
  "(image \<Rightarrow> nat \<Rightarrow> string option) \<Rightarrow> (nat \<Rightarrow> string \<Rightarrow> image option) \<Rightarrow> nat \<Rightarrow> image
   \<Rightarrow> (nat \<times> image) \<times> event list" where
  "process_image_gen client download index img =
     (case process_page_with_retry client download img 5 of
        (None, out) \<Rightarrow> (let new_img = img in ((index, new_img), out))
      | (Some new_img, out) \<Rightarrow> ((index, new_img), out))"

text \<open>
  The events of attempt \<open>a\<close> (the sleep before every attempt but the first, then the
  call), and of the first \<open>k\<close> attempts.
\<close>

definition attempt_events :: "nat \<Rightarrow> event list" where
  "attempt_events a = (if 0 < a then [Sleep 2] else []) @ [Call a]"

definition attempts_trace :: "nat \<Rightarrow> event list" where
  "attempts_trace k = concat (map attempt_events [0..<k])"

fun is_call :: "event \<Rightarrow> bool" where
  "is_call (Call n) = True"
| "is_call _ = False"

text \<open>
  A remote side for the examples: the service fails twice, then answers with a link,
  and the download of the link gives a picture.
\<close>

definition demo_client :: "image \<Rightarrow> nat \<Rightarrow> string option" where
  "demo_client img n = (if n < 2 then None else Some ''done: http://h/i.png'')"

definition demo_download :: "nat \<Rightarrow> string \<Rightarrow> image option" where
  "demo_download n url = (if url = ''http://h/i.png'' then Some (pic ''RGB'' 7) else None)"

section \<open>Step 2 of \<open>main\<close>: the two worker pools (main.py, lines 268 to 399)\<close>

text \<open>
  A layout is the dict that \<open>extract_text_layout\<close> returns, with the key
  \<open>original_size\<close> that \<open>process_ocr\<close> adds. The list \<open>layouts\<close> starts with
  \<open>{"text_blocks": []}\<close> in every slot.
\<close>

record layout =
  layout_blocks :: blocks
  original_size :: "(int \<times> int) option"

definition empty_layout :: layout where
  "empty_layout = \<lparr>layout_blocks = Fragments [], original_size = None\<rparr>"

text \<open>
  What a run of step 2 is given. \<open>job_layout_file i\<close> and \<open>job_processed_file i\<close> are the
  artifacts of page \<open>i + 1\<close> found on disk (\<open>None\<close> when the file does not exist);
  \<open>job_ocr\<close> says that \<open>ocr_client\<close> is not \<open>None\<close>; \<open>job_extract i img\<close> is the outcome of
  the \<open>try\<close> body of \<open>process_ocr\<close> for page \<open>i\<close> (\<open>None\<close> when it raises);
  \<open>job_client i\<close> and \<open>job_download i\<close> are the remote side of page \<open>i\<close>. What a worker
  gets from outside depends on its page, not on when it runs.
\<close>

record job =
  job_images :: "image list"
  job_layout_file :: "nat \<Rightarrow> layout option"
  job_processed_file :: "nat \<Rightarrow> image option"
  job_ocr :: bool
  job_skip_image_gen :: bool
  job_extract :: "nat \<Rightarrow> image \<Rightarrow> layout option"
  job_client :: "nat \<Rightarrow> image \<Rightarrow> nat \<Rightarrow> string option"
  job_download :: "nat \<Rightarrow> nat \<Rightarrow> string \<Rightarrow> image option"

text \<open>\<open>process_ocr\<close> (lines 307 to 330) returns its own index with the layout, or with
  \<open>None\<close> from the \<open>except\<close> branch.\<close>

definition process_ocr ::
  "(image \<Rightarrow> layout option) \<Rightarrow> nat \<Rightarrow> image \<Rightarrow> nat \<times> layout option" where
  "process_ocr extract index img =
     (case extract img of
        Some layout \<Rightarrow> (index, Some (layout\<lparr>original_size := Some (size_px img)\<rparr>))
      | None \<Rightarrow> (index, None))"

text \<open>
  The loops of lines 371 to 380: for each result, in the order \<open>as_completed\<close> yields
  them, \<open>index, r = future.result()\<close> and, when \<open>r\<close> is true, \<open>slots[index] = r\<close>. \<open>keep r\<close> is
  the value stored, or \<open>None\<close> when \<open>r\<close> is false: a layout dict has keys and is true,
  \<open>None\<close> is false, and a PIL image is true. A store outside the list is an \<open>IndexError\<close>.
\<close>

fun collect :: "('r \<Rightarrow> 's option) \<Rightarrow> 's list \<Rightarrow> (nat \<times> 'r) list \<Rightarrow> py_error + 's list" where
  "collect keep slots [] = Inr slots"
| "collect keep slots ((index, r) # rest) =
     (case keep r of
        None \<Rightarrow> collect keep slots rest
      | Some v \<Rightarrow>
          if index < length slots then collect keep (slots[index := v]) rest
          else Inl IndexError)"

text \<open>
  Step 2 up to the list \<open>pages_data\<close> of step 3. \<open>ocr_completed\<close> and \<open>gen_completed\<close> are
  \<open>as_completed\<close> on the two lists of futures: the order in which the workers of each
  pool finish.
\<close>

definition step2 ::
  "job \<Rightarrow> ((nat \<times> layout option) list \<Rightarrow> (nat \<times> layout option) list)
       \<Rightarrow> ((nat \<times> image) list \<Rightarrow> (nat \<times> image) list)
       \<Rightarrow> py_error + (image option \<times> layout) list" where
  "step2 j ocr_completed gen_completed =
     (let images = job_images j;
          total_pages = length images;
          layouts = map (\<lambda>i. case job_layout_file j i of
                                Some loaded \<Rightarrow> loaded
                              | None \<Rightarrow> empty_layout) [0..<total_pages];
          processed_images = map (\<lambda>i. job_processed_file j i) [0..<total_pages];
          pages_need_ocr =
            filter (\<lambda>i. job_layout_file j i = None \<and> job_ocr j) [0..<total_pages];
          pages_need_image_gen =
            filter (\<lambda>i. job_processed_file j i = None \<and> \<not> job_skip_image_gen j)
              [0..<total_pages];
          ocr_futures =
            map (\<lambda>i. process_ocr (job_extract j i) i (images ! i)) pages_need_ocr;
          image_gen_futures =
            map (\<lambda>i. fst (process_image_gen (job_client j i) (job_download j i) i (images ! i)))
              pages_need_image_gen
      in (case collect (\<lambda>layout. layout) layouts (ocr_completed ocr_futures) of
            Inl e \<Rightarrow> Inl e
          | Inr layouts \<Rightarrow>
              (case collect (\<lambda>img. Some (Some img)) processed_images
                      (gen_completed image_gen_futures) of
                 Inl e \<Rightarrow> Inl e
               | Inr processed_images \<Rightarrow>
                   (let processed_images =
                          (if job_skip_image_gen j then map Some images else processed_images)
                    in Inr (zip processed_images layouts)))))"

text \<open>
  The pair that page \<open>i\<close> (counted from 0) must contribute, from the page's own inputs
  alone: the artifact on disk if there is one, else the result of the page's worker.
\<close>

definition page_layout :: "job \<Rightarrow> nat \<Rightarrow> layout" where
  "page_layout j i =
     (case job_layout_file j i of
        Some loaded \<Rightarrow> loaded
      | None \<Rightarrow>
          if job_ocr j
          then (case snd (process_ocr (job_extract j i) i (job_images j ! i)) of
                  Some l \<Rightarrow> l
                | None \<Rightarrow> empty_layout)
          else empty_layout)"

definition page_image :: "job \<Rightarrow> nat \<Rightarrow> image option" where
  "page_image j i =
     (if job_skip_image_gen j then Some (job_images j ! i)
      else (case job_processed_file j i of
              Some loaded \<Rightarrow> Some loaded
            | None \<Rightarrow>
                Some (snd (fst (process_image_gen (job_client j i) (job_download j i) i
                                  (job_images j ! i))))))"

text \<open>
  A job of three pages for the examples: the layout of the second page is on disk, the
  OCR of the third page raises, and the remote service fails on the first page in every
  attempt.
\<close>

definition demo_job :: job where
  "demo_job =
     \<lparr>job_images = [pic ''RGB'' 1, pic ''RGB'' 2, pic ''RGB'' 3],
      job_layout_file =
        (\<lambda>i. if i = 1 then Some \<lparr>layout_blocks = Fragments [], original_size = Some (9, 9)\<rparr>
             else None),
      job_processed_file = (\<lambda>i. None),
      job_ocr = True,
      job_skip_image_gen = False,
      job_extract =
        (\<lambda>i img. if i = 2 then None
                 else Some \<lparr>layout_blocks = Merged (JString ''first page''),
                            original_size = None\<rparr>),
      job_client = (\<lambda>i. if i = 0 then (\<lambda>img n. None) else demo_client),
      job_download = (\<lambda>i. demo_download)\<rparr>"

section \<open>Step 1 of \<open>main\<close>: the page rasters (main.py, lines 217 to 262)\<close>

text \<open>
  The directory \<open>original_images\<close> of the job: file names with what \<open>Image.open\<close> and
  \<open>verify\<close> make of each file. \<open>os.listdir\<close> gives the names in the order of the list.
\<close>

datatype png = Png image | Corrupt

type_synonym directory = "(string \<times> png) list"

text \<open>\<open>str(n)\<close> of a number that is not negative, as the f-string writes it.\<close>

fun str_nat :: "nat \<Rightarrow> string" where
  "str_nat n =
     (if n < 10 then [char_of (48 + n)]
      else str_nat (n div 10) @ [char_of (48 + n mod 10)])"

declare str_nat.simps [simp del]

definition page_file :: "nat \<Rightarrow> string" where
  "page_file i = ''page_'' @ str_nat (i + 1) @ ''.png''"

definition endswith :: "string \<Rightarrow> string \<Rightarrow> bool" where
  "endswith f suffix =
     (length suffix \<le> length f \<and> drop (length f - length suffix) f = suffix)"

text \<open>
  \<open>img.save(path)\<close> creates the file or replaces it. \<open>sorted\<close> on a list of \<open>str\<close> is
  \<open>sort\<close> in the order of strings: by code point, left to right, a proper prefix first.
\<close>

definition write_file :: "string \<Rightarrow> png \<Rightarrow> directory \<Rightarrow> directory" where
  "write_file name content dir = (name, content) # filter (\<lambda>p. fst p \<noteq> name) dir"

fun save_pages :: "nat \<Rightarrow> image list \<Rightarrow> directory \<Rightarrow> directory" where
  "save_pages i [] dir = dir"
| "save_pages i (img # rest) dir = save_pages (i + 1) rest (write_file (page_file i) (Png img) dir)"

text \<open>
  The loop of lines 231 to 242: the images are appended in the order of
  \<open>existing_images\<close>; a file that does not open sets \<open>need_reextract\<close> and ends the loop.
\<close>

fun load_existing :: "directory \<Rightarrow> string list \<Rightarrow> image list \<Rightarrow> image list \<times> bool" where
  "load_existing dir [] images = (images, False)"
| "load_existing dir (img_file # rest) images =
     (case map_of dir img_file of
        Some (Png img) \<Rightarrow> load_existing dir rest (images @ [img])
      | _ \<Rightarrow> (images, True))"

text \<open>
  How a part of \<open>main\<close> ends: it returns, it raises, or \<open>main\<close> goes on with a value.
\<close>

datatype 'a outcome = Returns | Raises py_error | Goes_on 'a

text \<open>
  Step 1. \<open>pdf\<close> is what \<open>extract_images_from_pdf(input_path)\<close> gives (\<open>None\<close> when it
  raises). \<open>progress\<close> is true when the record has a key; \<open>progress.get('stage') >= 1\<close>
  raises on a record without the key \<open>stage\<close>. The result is the list \<open>images\<close>, the
  directory and the progress file.
\<close>

definition step1 ::
  "progress_file \<Rightarrow> string \<Rightarrow> directory \<Rightarrow> image list option
   \<Rightarrow> (image list \<times> directory \<times> progress_file) outcome" where
  "step1 file input_path dir pdf =
     (let progress = load_progress file input_path;
          existing_images = sort (filter (\<lambda>f. endswith f ''.png'') (map fst dir));
          reextract =
            (case pdf of
               None \<Rightarrow> Returns
             | Some images \<Rightarrow>
                 Goes_on (images, save_pages 0 images dir,
                          save_progress file input_path 1
                            (Some (int (length images))) (Some (int (length images)))))
      in (case progress of
            None \<Rightarrow> reextract
          | Some e \<Rightarrow>
              if e ''stage'' = None \<and> e ''completed'' = None \<and> e ''total'' = None
              then reextract
              else (case e ''stage'' of
                      None \<Rightarrow> Raises OtherException
                    | Some stage \<Rightarrow>
                        if stage \<ge> 1 \<and> existing_images \<noteq> []
                        then (case load_existing dir existing_images [] of
                                (images, True) \<Rightarrow> reextract
                              | (images, False) \<Rightarrow> Goes_on (images, dir, file))
                        else reextract)))"

text \<open>
  The job of step 2 in a run with \<open>--skip-ocr\<close> and \<open>--skip-image-gen\<close>, on the images
  of step 1, with no layout on disk and the processed images that are on disk.
\<close>

definition skip_job :: "image list \<Rightarrow> (nat \<Rightarrow> image option) \<Rightarrow> job" where
  "skip_job images processed =
     \<lparr>job_images = images,
      job_layout_file = (\<lambda>i. None),
      job_processed_file = processed,
      job_ocr = False,
      job_skip_image_gen = True,
      job_extract = (\<lambda>i img. None),
      job_client = (\<lambda>i img n. None),
      job_download = (\<lambda>i n url. None)\<rparr>"

text \<open>
  Two runs of \<open>main\<close> on the same input with \<open>--skip-ocr --skip-image-gen\<close>, up to the
  images of the list \<open>pages_data\<close> of the second run. The first run starts with no
  progress file and empty directories and runs to its end (it stores \<open>images[i]\<close> as the
  processed image of page \<open>i + 1\<close> and records stage 3); the second run finds what the
  first left.
\<close>

definition second_run_pages :: "string \<Rightarrow> image list \<Rightarrow> image option list option" where
  "second_run_pages input_path pdf =
     (case step1 None input_path [] (Some pdf) of
        Goes_on (images1, dir1, file1) \<Rightarrow>
          (case step1 (fst (step3 file1 input_path (int (length images1)) Written))
                  input_path dir1 (Some pdf) of
             Goes_on (images2, dir2, file2) \<Rightarrow>
               (case step2
                       (skip_job images2
                          (\<lambda>i. if i < length images1 then Some (images1 ! i) else None))
                       (\<lambda>fs. fs) (\<lambda>fs. fs) of
                  Inr pages_data \<Rightarrow> Some (map fst pages_data)
                | Inl e \<Rightarrow> None)
           | _ \<Rightarrow> None)
      | _ \<Rightarrow> None)"

section \<open>Properties of the progress file\<close>

lemma save_progress_other:
  "k \<noteq> input_path \<Longrightarrow>
   load_progress (save_progress file input_path stage completed total0) k = load_progress file k"
  by (simp add: save_progress_def load_progress_def Let_def split: option.splits)

lemma save_progress_stage:
  "stage_of (load_progress (save_progress file input_path stage completed total0) input_path)
   = Some stage"
  by (simp add: save_progress_def load_progress_def stage_of_def Let_def split: option.splits)

lemma step3_stage:
  "stage_of (load_progress (fst (step3 file input_path total_pages outcome)) input_path) = Some 3"
  unfolding step3_def Let_def fst_conv by (rule save_progress_stage)

text \<open>
  C10. When \<open>progress.json\<close> exists, \<open>save_progress\<close> and \<open>delete_progress\<close> write a file
  again, in which every record keyed by a path other than \<open>input_path\<close> is the record
  that was there before; \<open>delete_progress\<close> removes the entry of \<open>input_path\<close>, and
  \<open>load_progress\<close> for that path returns \<open>None\<close> afterwards.
\<close>

theorem progress_frame:
  "(\<exists>p'. save_progress (Some p) input_path stage completed total0 = Some p'
         \<and> (\<forall>k. k \<noteq> input_path \<longrightarrow> p' k = p k))
   \<and> (\<exists>p'. delete_progress (Some p) input_path = Some p'
         \<and> (\<forall>k. k \<noteq> input_path \<longrightarrow> p' k = p k)
         \<and> p' input_path = None)
   \<and> load_progress (delete_progress (Some p) input_path) input_path = None"
  by (simp add: save_progress_def delete_progress_def load_progress_def Let_def
           split: option.splits)

theorem progress_frame_witness:
  "load_progress
     (save_progress (Some [''a.pdf'' \<mapsto> [''stage'' \<mapsto> 1], ''b.pdf'' \<mapsto> [''stage'' \<mapsto> 2]])
        ''a.pdf'' 3 None None) ''b.pdf'' = Some [''stage'' \<mapsto> 2]
   \<and> load_progress
     (delete_progress (Some [''a.pdf'' \<mapsto> [''stage'' \<mapsto> 1], ''b.pdf'' \<mapsto> [''stage'' \<mapsto> 2]])
        ''a.pdf'') ''b.pdf'' = Some [''stage'' \<mapsto> 2]
   \<and> load_progress
     (delete_progress (Some [''a.pdf'' \<mapsto> [''stage'' \<mapsto> 1], ''b.pdf'' \<mapsto> [''stage'' \<mapsto> 2]])
        ''a.pdf'') ''a.pdf'' = None"
  using progress_frame
    [of "[''a.pdf'' \<mapsto> [''stage'' \<mapsto> 1], ''b.pdf'' \<mapsto> [''stage'' \<mapsto> 2]]" "''a.pdf''" 3 None None]
  by (auto simp add: load_progress_def)

text \<open>
  C4. The claim is that a run whose assembly raises leaves the job's record at stage 2.
  In the code the \<open>except\<close> branch only prints, and \<open>save_progress(input_path, 3, ...)\<close>
  runs after it: with a raising assembler the record of a 4-page job ends at stage 3,
  as it does when the assembler succeeds.
\<close>

theorem step3_raised_records_stage_3:
  "stage_of (load_progress (fst (step3 None ''doc.pdf'' 4 Raised)) ''doc.pdf'') = Some 3
   \<and> fst (step3 None ''doc.pdf'' 4 Raised) = fst (step3 None ''doc.pdf'' 4 Written)"
  by (simp add: step3_def save_progress_def load_progress_def stage_of_def Let_def)

section \<open>Properties of the PDF writer\<close>

lemma rgb_loop_filter:
  "rgb_loop images acc = acc @ filter (\<lambda>i. mode i \<noteq> ''RGBA'') images"
  by (induction images arbitrary: acc) (simp_all add: Let_def)

lemma save_images_to_pdf_some:
  "save_images_to_pdf (first # others) =
     Some (case filter (\<lambda>i. mode i \<noteq> ''RGBA'') (first # others) of
             [] \<Rightarrow> map (\<lambda>i. convert i ''RGB'') (first # others)
           | r # rs \<Rightarrow> r # rs)"
  unfolding save_images_to_pdf_def rgb_loop_filter
  by (simp split: list.splits)

text \<open>
  C9, as the code has it. For a non-empty image list, when at least one image is not in
  mode \<open>RGBA\<close> the PDF holds exactly the images that are not \<open>RGBA\<close>, in their order
  (an \<open>RGBA\<close> image is converted and never appended); when every image is \<open>RGBA\<close> the
  \<open>else\<close> branch writes every image, converted to \<open>RGB\<close>, in the original order.
\<close>

theorem save_images_to_pdf_pages:
  "images \<noteq> [] \<Longrightarrow>
   save_images_to_pdf images =
     Some (if \<exists>i \<in> set images. mode i \<noteq> ''RGBA''
           then filter (\<lambda>i. mode i \<noteq> ''RGBA'') images
           else map (\<lambda>i. convert i ''RGB'') images)"
proof (cases images)
  case Nil
  assume "images \<noteq> []"
  with Nil show ?thesis by simp
next
  case (Cons first others)
  have e: "(\<exists>i \<in> set images. mode i \<noteq> ''RGBA'')
           \<longleftrightarrow> filter (\<lambda>i. mode i \<noteq> ''RGBA'') images \<noteq> []"
    by (simp add: filter_empty_conv)
  show ?thesis
    unfolding e unfolding Cons save_images_to_pdf_some
    by (cases "filter (\<lambda>i. mode i \<noteq> ''RGBA'') (first # others)") simp_all
qed

theorem save_images_to_pdf_pages_witness:
  "[pic ''RGB'' 1, pic ''RGBA'' 2, pic ''L'' 3] \<noteq> [] \<and>
   save_images_to_pdf [pic ''RGB'' 1, pic ''RGBA'' 2, pic ''L'' 3]
     = Some [pic ''RGB'' 1, pic ''L'' 3]"
  using save_images_to_pdf_pages [of "[pic ''RGB'' 1, pic ''RGBA'' 2, pic ''L'' 3]"]
  by (simp add: pic_def)

text \<open>
  C9 as stated fails on a list whose images are all \<open>RGBA\<close>: the claim gives a PDF of the
  images that are not \<open>RGBA\<close>, which is none, and the code writes both pages.
\<close>

theorem save_images_to_pdf_all_rgba:
  "save_images_to_pdf [pic ''RGBA'' 1, pic ''RGBA'' 2]
     = Some [pic ''RGB'' 1, pic ''RGB'' 2]
   \<and> save_images_to_pdf [pic ''RGBA'' 1, pic ''RGBA'' 2]
     \<noteq> Some (filter (\<lambda>i. mode i \<noteq> ''RGBA'') [pic ''RGBA'' 1, pic ''RGBA'' 2])"
  by (simp add: save_images_to_pdf_def pic_def convert_def)

section \<open>Properties of the OCR text blocks\<close>

lemma ocr_loop_map_filter:
  "ocr_loop W H fs acc = acc @ List.map_filter (fragment_block W H) fs"
  by (induction fs arbitrary: acc) (simp_all add: List.map_filter_simps split: option.splits)

lemma fragment_block_None:
  "fragment_block W H f = None \<longleftrightarrow> \<not> (strip (frag_text f) \<noteq> [] \<and> 60 \<le> frag_conf f)"
  by (auto simp add: fragment_block_def Let_def)

lemma fragment_block_text:
  "fragment_block W H f = Some b \<Longrightarrow> block_text b = strip (frag_text f)"
  by (auto simp add: fragment_block_def Let_def split: if_splits)

lemma round_half_even_bound: "\<bar>of_int (round_half_even q) - q\<bar> \<le> 1 / 2"
proof -
  have a: "of_int \<lfloor>q\<rfloor> \<le> q" and b: "q < of_int \<lfloor>q\<rfloor> + 1"
    by linarith+
  show ?thesis
    unfolding round_half_even_def Let_def using a b
    by (simp add: abs_le_iff)
qed

lemma py_round1_bound: "\<bar>py_round1 q - q\<bar> \<le> 1 / 20"
proof -
  have "\<bar>of_int (round_half_even (q * 10)) - q * 10\<bar> \<le> 1 / 2"
    by (rule round_half_even_bound)
  then show ?thesis
    unfolding py_round1_def by (simp add: abs_le_iff field_simps)
qed

lemma fragment_block_font:
  "fragment_block W H f = Some b \<Longrightarrow>
   font_size (block_font b) = py_round1 (of_int (bbox_height (block_bbox b)) * (3 / 4))"
  by (auto simp add: fragment_block_def Let_def split: if_splits)

lemma raw_text_blocks_texts:
  "map block_text (raw_text_blocks W H fs)
     = map (\<lambda>f. strip (frag_text f))
         (filter (\<lambda>f. strip (frag_text f) \<noteq> [] \<and> 60 \<le> frag_conf f) fs)"
  unfolding raw_text_blocks_def ocr_loop_map_filter
proof (induction fs)
  case Nil
  show ?case by (simp add: List.map_filter_simps)
next
  case (Cons f fs)
  show ?case
  proof (cases "fragment_block W H f")
    case None
    with Cons show ?thesis
      using fragment_block_None [of W H f] by (simp add: List.map_filter_simps)
  next
    case (Some b)
    with Cons show ?thesis
      using fragment_block_None [of W H f] fragment_block_text [OF Some]
      by (simp add: List.map_filter_simps)
  qed
qed

lemma raw_text_blocks_mem:
  "b \<in> set (raw_text_blocks W H fs) \<longleftrightarrow> (\<exists>f \<in> set fs. fragment_block W H f = Some b)"
  unfolding raw_text_blocks_def ocr_loop_map_filter
  by (force simp add: List.map_filter_def image_iff)

lemma round_half_even_of_int: "round_half_even (of_int n) = n"
  by (simp add: round_half_even_def)

lemma round_half_even_half:
  "round_half_even (of_int n + 1 / 2) = (if even n then n else n + 1)"
proof -
  have f: "\<lfloor>(of_int n + 1 / 2 :: rat)\<rfloor> = n"
    by (rule floor_unique) simp_all
  show ?thesis
    unfolding round_half_even_def f Let_def by simp
qed

lemma py_round1_three_quarters:
  "\<exists>d. py_round1 (of_int h * (3 / 4)) = of_int d / 10
       \<and> \<bar>2 * d - 15 * h\<bar> \<le> 1 \<and> (odd h \<longrightarrow> even d)"
proof (cases "even h")
  case True
  then obtain m where m: "h = 2 * m" by (auto elim: evenE)
  have "(of_int h * (3 / 4) * 10 :: rat) = of_int (15 * m)"
    unfolding m by simp
  then have "py_round1 (of_int h * (3 / 4)) = of_int (15 * m) / 10"
    unfolding py_round1_def by (simp only: round_half_even_of_int)
  then show ?thesis
    using m True by (intro exI [of _ "15 * m"]) simp
next
  case False
  then obtain m where m: "h = 2 * m + 1" by (auto elim: oddE)
  have "(of_int h * (3 / 4) * 10 :: rat) = of_int (15 * m + 7) + 1 / 2"
    unfolding m by simp
  then have r: "py_round1 (of_int h * (3 / 4))
      = of_int (if even (15 * m + 7) then 15 * m + 7 else 15 * m + 7 + 1) / 10"
    unfolding py_round1_def by (simp only: round_half_even_half)
  show ?thesis
  proof (cases "even (15 * m + 7)")
    case True
    with r m show ?thesis by (intro exI [of _ "15 * m + 7"]) simp
  next
    case False
    with r m show ?thesis by (intro exI [of _ "15 * m + 8"]) simp
  qed
qed

text \<open>
  The number of tenths is fixed by the two conditions of the next theorem: it is the
  integer nearest to 7.5 times the height, and the even one of the two nearest when the
  height is odd (then 7.5 times the height lies half way between two integers).
\<close>

lemma tenth_unique:
  "\<bar>2 * d - 15 * h\<bar> \<le> 1 \<Longrightarrow> (odd h \<longrightarrow> even d) \<Longrightarrow>
   \<bar>2 * d' - 15 * h\<bar> \<le> 1 \<Longrightarrow> (odd h \<longrightarrow> even d') \<Longrightarrow> d = (d' :: int)"
proof -
  assume a: "\<bar>2 * d - 15 * h\<bar> \<le> 1" "odd h \<longrightarrow> even d"
    "\<bar>2 * d' - 15 * h\<bar> \<le> 1" "odd h \<longrightarrow> even d'"
  from a(1,3) have c: "\<bar>d - d'\<bar> \<le> 1" by linarith
  show ?thesis
  proof (cases "even h")
    case True
    then obtain m where "h = 2 * m" by (auto elim: evenE)
    with a(1,3) show ?thesis by presburger
  next
    case False
    with a(2,4) have "even d" "even d'" by simp_all
    with c show ?thesis by presburger
  qed
qed

text \<open>
  C5. The raw text-block list holds, in order, exactly the fragments whose stripped text
  is not empty and whose confidence is at least 60 (with the stripped text). The font
  size of every block in it is 0.75 times the height of the block's bounding box rounded
  to one decimal as \<open>round\<close> does it: a whole number \<open>d\<close> of tenths, the nearest to 7.5
  times the height, and the even one when that product lies half way between two whole
  numbers (an odd height).
\<close>

theorem raw_text_blocks_kept:
  "map block_text (raw_text_blocks W H fs)
     = map (\<lambda>f. strip (frag_text f))
         (filter (\<lambda>f. strip (frag_text f) \<noteq> [] \<and> 60 \<le> frag_conf f) fs)
   \<and> (\<forall>b \<in> set (raw_text_blocks W H fs).
         \<exists>d. font_size (block_font b) = of_int d / 10
            \<and> \<bar>2 * d - 15 * bbox_height (block_bbox b)\<bar> \<le> 1
            \<and> (odd (bbox_height (block_bbox b)) \<longrightarrow> even d))"
proof (intro conjI ballI)
  show "map block_text (raw_text_blocks W H fs)
     = map (\<lambda>f. strip (frag_text f))
         (filter (\<lambda>f. strip (frag_text f) \<noteq> [] \<and> 60 \<le> frag_conf f) fs)"
    by (rule raw_text_blocks_texts)
next
  fix b assume "b \<in> set (raw_text_blocks W H fs)"
  then obtain f where f: "fragment_block W H f = Some b"
    unfolding raw_text_blocks_mem by blast
  show "\<exists>d. font_size (block_font b) = of_int d / 10
            \<and> \<bar>2 * d - 15 * bbox_height (block_bbox b)\<bar> \<le> 1
            \<and> (odd (bbox_height (block_bbox b)) \<longrightarrow> even d)"
    unfolding fragment_block_font [OF f] by (rule py_round1_three_quarters)
qed

theorem raw_text_blocks_kept_witness:
  "map block_text
     (raw_text_blocks 100 100
        [frag '' Hi '' 90 5 5 20 1, frag ''lo'' 59 5 5 20 11, frag ''  '' 95 1 1 1 1,
         frag ''ok'' 60 5 9 20 3])
     = [''Hi'', ''ok'']
   \<and> map (\<lambda>b. (bbox_height (block_bbox b), font_size (block_font b)))
       (raw_text_blocks 100 100
        [frag '' Hi '' 90 5 5 20 1, frag ''lo'' 59 5 5 20 11, frag ''  '' 95 1 1 1 1,
         frag ''ok'' 60 5 9 20 3])
     = [(1, 8 / 10), (3, 22 / 10)]"
proof -
  let ?fs = "[frag '' Hi '' 90 5 5 20 1, frag ''lo'' 59 5 5 20 11, frag ''  '' 95 1 1 1 1,
         frag ''ok'' 60 5 9 20 3]"
  have e: "map (\<lambda>b. (block_text b, bbox_height (block_bbox b))) (raw_text_blocks 100 100 ?fs)
             = [(''Hi'', 1), (''ok'', 3)]"
    by code_simp
  then obtain b1 b2 where bs: "raw_text_blocks 100 100 ?fs = [b1, b2]"
    "block_text b1 = ''Hi''" "bbox_height (block_bbox b1) = 1"
    "block_text b2 = ''ok''" "bbox_height (block_bbox b2) = 3"
    by auto
  have t: "\<forall>b \<in> set (raw_text_blocks 100 100 ?fs).
         \<exists>d. font_size (block_font b) = of_int d / 10
            \<and> \<bar>2 * d - 15 * bbox_height (block_bbox b)\<bar> \<le> 1
            \<and> (odd (bbox_height (block_bbox b)) \<longrightarrow> even d)"
    using raw_text_blocks_kept [of 100 100 ?fs] by blast
  have m1: "b1 \<in> set (raw_text_blocks 100 100 ?fs)"
    and m2: "b2 \<in> set (raw_text_blocks 100 100 ?fs)"
    unfolding bs(1) by simp_all
  from t m1 obtain d1 where d1: "font_size (block_font b1) = of_int d1 / 10"
    "\<bar>2 * d1 - 15 * bbox_height (block_bbox b1)\<bar> \<le> 1"
    "odd (bbox_height (block_bbox b1)) \<longrightarrow> even d1"
    by blast
  from d1(2,3) have "\<bar>2 * d1 - 15\<bar> \<le> 1" "even d1"
    unfolding bs(3) by simp_all
  then have "d1 = 8" by presburger
  with d1(1) have s1: "font_size (block_font b1) = 8 / 10" by simp
  from t m2 obtain d2 where d2: "font_size (block_font b2) = of_int d2 / 10"
    "\<bar>2 * d2 - 15 * bbox_height (block_bbox b2)\<bar> \<le> 1"
    "odd (bbox_height (block_bbox b2)) \<longrightarrow> even d2"
    by blast
  from d2(2,3) have "\<bar>2 * d2 - 45\<bar> \<le> 1" "even d2"
    unfolding bs(5) by simp_all
  then have "d2 = 22" by presburger
  with d2(1) have s2: "font_size (block_font b2) = 22 / 10" by simp
  show ?thesis
    unfolding bs using bs(2-5) s1 s2 by simp
qed

lemma fragment_block_bounds:
  "fragment_block W H f = Some b \<Longrightarrow>
   0 \<le> bbox_x (block_bbox b) \<and> 0 \<le> bbox_y (block_bbox b)
   \<and> bbox_x (block_bbox b) + bbox_width (block_bbox b) \<le> W
   \<and> bbox_y (block_bbox b) + bbox_height (block_bbox b) \<le> H"
  by (auto simp add: fragment_block_def Let_def split: if_splits)

lemma raw_text_blocks_upper_bounds:
  "b \<in> set (raw_text_blocks W H fs) \<Longrightarrow>
   0 \<le> bbox_x (block_bbox b) \<and> 0 \<le> bbox_y (block_bbox b)
   \<and> bbox_x (block_bbox b) + bbox_width (block_bbox b) \<le> W
   \<and> bbox_y (block_bbox b) + bbox_height (block_bbox b) \<le> H"
  unfolding raw_text_blocks_mem using fragment_block_bounds by blast

text \<open>
  C8. The claim is that after the clamping step every block has \<open>0 \<le> x\<close>, \<open>0 \<le> y\<close>,
  \<open>x + width \<le> W\<close>, \<open>y + height \<le> H\<close> and a width and height that are not negative,
  for all raw coordinates. The four bounds hold (\<open>raw_text_blocks_upper_bounds\<close>), but
  \<open>x\<close> is only clamped from below: a fragment whose left edge is at 150 in an image
  100 pixels wide keeps \<open>x = 150\<close> and gets the width \<open>min(100 - 150, 20) = -50\<close>.
\<close>

theorem clamp_left_beyond_width:
  "map block_bbox (raw_text_blocks 100 100 [frag ''Hi'' 90 150 10 20 10])
     = [\<lparr>bbox_x = 150, bbox_y = 10, bbox_width = - 50, bbox_height = 10\<rparr>]"
  by code_simp

section \<open>Properties of the merge step\<close>

lemma merge_loop_all_fail:
  "(\<And>a. attempt \<le> a \<Longrightarrow> a < max_retries \<Longrightarrow> isl (fst (merge_attempt loads (chat a)))) \<Longrightarrow>
   fst (merge_loop loads chat text_blocks max_retries attempt) = Fragments text_blocks"
proof (induction loads chat text_blocks max_retries attempt rule: merge_loop.induct)
  case (1 loads chat text_blocks max_retries attempt)
  show ?case
  proof (cases "attempt < max_retries")
    case False
    then show ?thesis by (subst merge_loop.simps) simp
  next
    case True
    then have "isl (fst (merge_attempt loads (chat attempt)))"
      using "1.prems" by simp
    then obtain e out where m: "merge_attempt loads (chat attempt) = (Inl e, out)"
      by (cases "merge_attempt loads (chat attempt)") (auto simp add: isl_def)
    have "fst (merge_loop loads chat text_blocks max_retries (attempt + 1)) = Fragments text_blocks"
      using "1.IH" [OF True m [symmetric] refl refl] "1.prems" by simp
    with True m show ?thesis
      by (subst merge_loop.simps) (auto simp add: Let_def split: prod.splits)
  qed
qed

text \<open>
  C3. When the merge client is not configured, or when each of the three attempts
  fails (the call raises, or the reply cannot be parsed), \<open>merge_text_blocks\<close> returns
  the list of fragments it was given, unchanged.
\<close>

theorem merge_fallback:
  "\<not> openai_client \<or> (\<forall>attempt<3. isl (fst (merge_attempt loads (chat attempt)))) \<Longrightarrow>
   fst (merge_text_blocks openai_client loads chat text_blocks) = Fragments text_blocks"
  using merge_loop_all_fail [of 0 3 loads chat text_blocks]
  by (auto simp add: merge_text_blocks_def)

lemma merge_attempt_unparseable:
  "\<forall>strict s. loads strict s = None \<Longrightarrow> isl (fst (merge_attempt loads r))"
  by (auto simp add: merge_attempt_def parse_content_def split: reply.splits option.splits sum.splits prod.splits)


theorem merge_fallback_witness:
  "isl (fst (merge_attempt (\<lambda>strict s. None) (Reply (Some ''not json''))))
   \<and> fst (merge_text_blocks True (\<lambda>strict s. None) (\<lambda>attempt. Reply (Some ''not json''))
          (raw_text_blocks 100 100 [frag ''Hi'' 90 5 5 20 11]))
       = Fragments (raw_text_blocks 100 100 [frag ''Hi'' 90 5 5 20 11])
   \<and> raw_text_blocks 100 100 [frag ''Hi'' 90 5 5 20 11] \<noteq> []"
proof -
  have f: "isl (fst (merge_attempt (\<lambda>strict s. None) r))" for r
    by (rule merge_attempt_unparseable) simp
  have n: "raw_text_blocks 100 100 [frag ''Hi'' 90 5 5 20 11] \<noteq> []"
    by code_simp
  show ?thesis
    using merge_fallback [of True "\<lambda>strict s. None" "\<lambda>attempt. Reply (Some ''not json'')"
        "raw_text_blocks 100 100 [frag ''Hi'' 90 5 5 20 11]"] f n
    by simp
qed

lemma fix_truncated_text:
  "fst (fix_truncated content) =
     content
     @ replicate (count_list content CHR ''{'' - count_list content CHR ''}'') CHR ''}''
     @ replicate (count_list content CHR ''['' - count_list content CHR '']'') CHR '']''"
proof -
  have d: "nat (int a - int b) = a - b" for a b :: nat
    by simp
  show ?thesis
    by (simp add: fix_truncated_def count_char_def Let_def d)
qed

lemma parse_content_fix_attempt:
  "(\<exists>a b. FixAttempt a b \<in> set (snd (parse_content loads content)))
     \<longleftrightarrow> (loads True content = None \<and> loads False content = None)"
  by (auto simp add: parse_content_def fix_truncated_def Let_def split: option.splits)

lemma parse_content_after_fix:
  "loads True content = None \<and> loads False content = None \<longrightarrow>
   fst (parse_content loads content)
     = (case loads False (fst (fix_truncated content)) of
          None \<Rightarrow> Inl JSONDecodeError
        | Some merged_blocks \<Rightarrow> Inr merged_blocks)"
  by (auto simp add: parse_content_def split: option.splits prod.splits)

lemma merge_attempt_parse_failure:
  "unfence raw = Inr content \<and> fst (parse_content loads content) = Inl JSONDecodeError \<longrightarrow>
   fst (merge_attempt loads (Reply (Some raw))) = Inl JSONDecodeError"
  by (auto simp add: merge_attempt_def split: prod.splits sum.splits option.splits)

text \<open>
  C7. The repair appends as many closing braces as there are more opening than closing
  braces in the text, then as many closing brackets as there are more opening than
  closing brackets, and nothing where the difference is not positive. It is attempted
  (the message of line 141 is printed) exactly when the strict and the lenient parse
  have both failed; the attempt then returns what the lenient parse of the repaired
  text gives, and a repaired text that does not parse ends the attempt with a
  \<open>JSONDecodeError\<close>.
\<close>

theorem json_repair:
  "fst (fix_truncated content) =
     content
     @ replicate (count_list content CHR ''{'' - count_list content CHR ''}'') CHR ''}''
     @ replicate (count_list content CHR ''['' - count_list content CHR '']'') CHR '']''
   \<and> ((\<exists>a b. FixAttempt a b \<in> set (snd (parse_content loads content)))
        \<longleftrightarrow> (loads True content = None \<and> loads False content = None))
   \<and> (loads True content = None \<and> loads False content = None \<longrightarrow>
        fst (parse_content loads content)
          = (case loads False (fst (fix_truncated content)) of
               None \<Rightarrow> Inl JSONDecodeError
             | Some merged_blocks \<Rightarrow> Inr merged_blocks))
   \<and> (unfence raw = Inr content \<and> fst (parse_content loads content) = Inl JSONDecodeError \<longrightarrow>
        fst (merge_attempt loads (Reply (Some raw))) = Inl JSONDecodeError)"
  using fix_truncated_text parse_content_fix_attempt parse_content_after_fix
    merge_attempt_parse_failure
  by blast

theorem json_repair_witness:
  "fst (fix_truncated ''[{'') = ''[{}]''
   \<and> fst (parse_content (\<lambda>strict s. if s = ''[{}]'' then Some (JArray [JObject []]) else None)
          ''[{'')
       = Inr (JArray [JObject []])
   \<and> fst (merge_attempt (\<lambda>strict s. None) (Reply (Some ''```json [{ ```'')))
       = Inl JSONDecodeError"
proof -
  have u: "unfence ''```json [{ ```'' = Inr ''[{''"
    by code_simp
  have c: "count_list ''[{'' CHR ''{'' = 1" "count_list ''[{'' CHR ''}'' = 0"
    "count_list ''[{'' CHR ''['' = 1" "count_list ''[{'' CHR '']'' = 0"
    by simp_all
  have p: "fst (parse_content (\<lambda>strict s. None) ''[{'') = Inl JSONDecodeError"
    by (simp add: parse_content_def split: prod.splits)
  have a: "fst (fix_truncated ''[{'') = ''[{}]''"
    using json_repair [of "''[{''"] unfolding c by simp
  have b: "fst (parse_content (\<lambda>strict s. if s = ''[{}]'' then Some (JArray [JObject []]) else None)
          ''[{'') = Inr (JArray [JObject []])"
    using json_repair [of "''[{''" "\<lambda>strict s. if s = ''[{}]'' then Some (JArray [JObject []]) else None"]
    unfolding a by simp
  have d: "fst (merge_attempt (\<lambda>strict s. None) (Reply (Some ''```json [{ ```'')))
       = Inl JSONDecodeError"
    using json_repair [of "''[{''" "\<lambda>strict s. None" "''```json [{ ```''"] u p by simp
  from a b d show ?thesis by simp
qed

section \<open>Properties of the regeneration worker\<close>

lemma match_url_length: "match_url s = Some url \<Longrightarrow> 8 \<le> length url"
  by (auto simp add: match_url_def Let_def Suc_le_eq split: if_splits prod.splits)

lemma first_url_length: "first_url s = Some url \<Longrightarrow> 8 \<le> length url"
  by (induction s) (auto split: option.splits dest: match_url_length)

lemma extract_url_nonempty: "extract_url_from_text t = Some url \<Longrightarrow> url \<noteq> []"
proof -
  assume a: "extract_url_from_text t = Some url"
  then obtain u where u: "first_url t = Some u"
    and e: "url = (if u \<noteq> [] \<and> last u = CHR '')'' then butlast u else u)"
    by (auto simp add: extract_url_from_text_def split: option.splits)
  from first_url_length [OF u] have "8 \<le> length u" .
  with e have "7 \<le> length url" by auto
  then show ?thesis by auto
qed

lemma attempt_image_None_iff:
  "attempt_image client download img a = None \<longleftrightarrow>
     (client img a = None \<or> client img a = Some []
      \<or> (\<exists>t. client img a = Some t
            \<and> (extract_url_from_text t = None
                \<or> (\<exists>url. extract_url_from_text t = Some url \<and> download a url = None))))"
  by (auto simp add: attempt_image_def split: option.splits dest: extract_url_nonempty)

lemma retry_loop_shape:
  "attempt \<le> m \<Longrightarrow>
   \<exists>k. attempt \<le> k \<and> k \<le> m
     \<and> snd (retry_loop client download img m attempt) = concat (map attempt_events [attempt..<k])
     \<and> (\<forall>a. attempt \<le> a \<and> a + 1 < k \<longrightarrow> attempt_image client download img a = None)
     \<and> (case fst (retry_loop client download img m attempt) of
          None \<Rightarrow> k = m \<and> (\<forall>a. attempt \<le> a \<and> a < m \<longrightarrow> attempt_image client download img a = None)
        | Some new_img \<Rightarrow> attempt < k \<and> attempt_image client download img (k - 1) = Some new_img)"
proof (induction client download img m attempt rule: retry_loop.induct)
  case (1 client download img m attempt)
  show ?case
  proof (cases "attempt < m")
    case False
    with "1.prems" have "attempt = m" by simp
    then show ?thesis
      by (subst (1 2) retry_loop.simps) (auto intro!: exI [of _ m])
  next
    case True
    show ?thesis
    proof (cases "attempt_image client download img attempt")
      case (Some new_img)
      have r: "retry_loop client download img m attempt = (Some new_img, attempt_events attempt)"
        using True Some by (subst retry_loop.simps) (simp add: attempt_events_def)
      show ?thesis
        unfolding r using True Some
        by (intro exI [of _ "attempt + 1"]) auto
    next
      case None
      obtain result later where
        l: "retry_loop client download img m (attempt + 1) = (result, later)"
        by (cases "retry_loop client download img m (attempt + 1)")
      have r: "retry_loop client download img m attempt = (result, attempt_events attempt @ later)"
        using True None l by (subst retry_loop.simps) (simp add: attempt_events_def)
      from "1.IH" [OF True refl None] True
      obtain k where k: "attempt + 1 \<le> k" "k \<le> m"
        "later = concat (map attempt_events [attempt + 1..<k])"
        "\<forall>a. attempt + 1 \<le> a \<and> a + 1 < k \<longrightarrow> attempt_image client download img a = None"
        "case result of
          None \<Rightarrow> k = m \<and> (\<forall>a. attempt + 1 \<le> a \<and> a < m \<longrightarrow> attempt_image client download img a = None)
        | Some new_img \<Rightarrow> attempt + 1 < k \<and> attempt_image client download img (k - 1) = Some new_img"
        unfolding l by auto
      have u: "[attempt..<k] = attempt # [attempt + 1..<k]"
        using k(1) by (simp add: upt_conv_Cons)
      have n: "attempt_image client download img a = None"
        if "attempt \<le> a" "a + 1 < k" for a
        using that None k(4) by (cases "a = attempt") auto
      have c: "case result of
          None \<Rightarrow> k = m \<and> (\<forall>a. attempt \<le> a \<and> a < m \<longrightarrow> attempt_image client download img a = None)
        | Some new_img \<Rightarrow> attempt < k \<and> attempt_image client download img (k - 1) = Some new_img"
      proof (cases result)
        case None
        have "attempt_image client download img a = None" if "attempt \<le> a" "a < m" for a
          using that \<open>attempt_image client download img attempt = None\<close> k(5) None
          by (cases "a = attempt") auto
        with None k(5) show ?thesis by simp
      next
        case (Some i)
        with k(5) show ?thesis by simp
      qed
      show ?thesis
        unfolding r using k(1,2,3) u n c
        by (intro exI [of _ k]) auto
    qed
  qed
qed

lemma calls_of_trace: "length (filter is_call (concat (map attempt_events [i..<k]))) = k - i"
  by (induction k) (auto simp add: attempt_events_def)


text \<open>
  C6. With the default budget, \<open>process_page_with_retry\<close> returns after \<open>k \<le> 5\<close>
  attempts: its events are exactly the calls 0 to \<open>k - 1\<close>, each one after the first
  preceded by a sleep of 2 seconds; every attempt before the last one failed; it returns
  \<open>None\<close> only after five failed attempts, and an image only from the last attempt made.
  An attempt fails in the same way (the loop goes on) when the service call fails, when
  the response is empty, when it has no URL and when the fetch fails, and in no other
  case. The loop is a total function.
\<close>

theorem retry_budget:
  "\<exists>k\<le>5.
     snd (process_page_with_retry client download img 5) = attempts_trace k
     \<and> length (filter is_call (snd (process_page_with_retry client download img 5))) = k
     \<and> (\<forall>a. a + 1 < k \<longrightarrow> attempt_image client download img a = None)
     \<and> (case fst (process_page_with_retry client download img 5) of
          None \<Rightarrow> k = 5 \<and> (\<forall>a<5. attempt_image client download img a = None)
        | Some new_img \<Rightarrow> 0 < k \<and> attempt_image client download img (k - 1) = Some new_img)
     \<and> (\<forall>a. attempt_image client download img a = None \<longleftrightarrow>
               (client img a = None \<or> client img a = Some []
                \<or> (\<exists>t. client img a = Some t
                      \<and> (extract_url_from_text t = None
                          \<or> (\<exists>url. extract_url_from_text t = Some url
                                     \<and> download a url = None)))))"
proof -
  from retry_loop_shape [of 0 5 client download img]
  obtain k where k: "k \<le> 5"
    "snd (retry_loop client download img 5 0) = concat (map attempt_events [0..<k])"
    "\<forall>a. a + 1 < k \<longrightarrow> attempt_image client download img a = None"
    "case fst (retry_loop client download img 5 0) of
          None \<Rightarrow> k = 5 \<and> (\<forall>a. 0 \<le> a \<and> a < 5 \<longrightarrow> attempt_image client download img a = None)
        | Some new_img \<Rightarrow> 0 < k \<and> attempt_image client download img (k - 1) = Some new_img"
    by auto
  have c: "length (filter is_call (snd (retry_loop client download img 5 0))) = k"
    unfolding k(2) calls_of_trace by simp
  have f: "\<forall>a. attempt_image client download img a = None \<longleftrightarrow>
               (client img a = None \<or> client img a = Some []
                \<or> (\<exists>t. client img a = Some t
                      \<and> (extract_url_from_text t = None
                          \<or> (\<exists>url. extract_url_from_text t = Some url
                                     \<and> download a url = None))))"
    using attempt_image_None_iff by blast
  have "k \<le> 5
     \<and> snd (process_page_with_retry client download img 5) = attempts_trace k
     \<and> length (filter is_call (snd (process_page_with_retry client download img 5))) = k
     \<and> (\<forall>a. a + 1 < k \<longrightarrow> attempt_image client download img a = None)
     \<and> (case fst (process_page_with_retry client download img 5) of
          None \<Rightarrow> k = 5 \<and> (\<forall>a<5. attempt_image client download img a = None)
        | Some new_img \<Rightarrow> 0 < k \<and> attempt_image client download img (k - 1) = Some new_img)"
    unfolding process_page_with_retry_def attempts_trace_def
    using k c by (auto split: option.splits)
  with f show ?thesis by blast
qed

theorem retry_budget_witness:
  "process_page_with_retry demo_client demo_download (pic ''RGB'' 1) 5
     = (Some (pic ''RGB'' 7), [Call 0, Sleep 2, Call 1, Sleep 2, Call 2])
   \<and> attempts_trace 3 = [Call 0, Sleep 2, Call 1, Sleep 2, Call 2]
   \<and> attempt_image demo_client demo_download (pic ''RGB'' 1) 0 = None
   \<and> attempt_image demo_client demo_download (pic ''RGB'' 1) 2 = Some (pic ''RGB'' 7)"
proof -
  have e: "process_page_with_retry demo_client demo_download (pic ''RGB'' 1) 5
     = (Some (pic ''RGB'' 7), [Call 0, Sleep 2, Call 1, Sleep 2, Call 2])"
    by code_simp
  have t: "attempts_trace 3 = [Call 0, Sleep 2, Call 1, Sleep 2, Call 2]"
    by code_simp
  from retry_budget [of demo_client demo_download "pic ''RGB'' 1"]
  obtain k where k: "k \<le> 5"
    "length (filter is_call (snd (process_page_with_retry demo_client demo_download (pic ''RGB'' 1) 5))) = k"
    "\<forall>a. a + 1 < k \<longrightarrow> attempt_image demo_client demo_download (pic ''RGB'' 1) a = None"
    "case fst (process_page_with_retry demo_client demo_download (pic ''RGB'' 1) 5) of
          None \<Rightarrow> k = 5 \<and> (\<forall>a<5. attempt_image demo_client demo_download (pic ''RGB'' 1) a = None)
        | Some new_img \<Rightarrow> 0 < k \<and> attempt_image demo_client demo_download (pic ''RGB'' 1) (k - 1) = Some new_img"
    by blast
  from k(2) have k3: "k = 3" unfolding e by simp
  from k(3) k3 have a0: "attempt_image demo_client demo_download (pic ''RGB'' 1) 0 = None"
    by simp
  from k(4) have a2: "attempt_image demo_client demo_download (pic ''RGB'' 1) 2 = Some (pic ''RGB'' 7)"
    unfolding e k3 by simp
  from e t a0 a2 show ?thesis by simp
qed

lemma process_page_all_fail:
  "(\<forall>a<m. attempt_image client download img a = None) \<Longrightarrow>
   fst (process_page_with_retry client download img m) = None"
  using retry_loop_shape [of 0 m client download img]
  unfolding process_page_with_retry_def
  by (cases "fst (retry_loop client download img m 0)") auto

lemma process_image_gen_index:
  "fst (fst (process_image_gen client download index img)) = index"
  by (simp add: process_image_gen_def split: prod.splits option.splits)

text \<open>
  C2. When each of the five attempts fails (no text, an empty text, no URL in the text,
  or a failed fetch), \<open>process_image_gen\<close> returns the original image for the page's
  index; in every case it returns an image, never \<open>None\<close>, for the index it was given.
\<close>

theorem regeneration_fallback:
  "fst (fst (process_image_gen client download index img)) = index
   \<and> ((\<forall>attempt<5.
          client img attempt = None \<or> client img attempt = Some []
          \<or> (\<exists>t. client img attempt = Some t
                \<and> (extract_url_from_text t = None
                    \<or> (\<exists>url. extract_url_from_text t = Some url
                               \<and> download attempt url = None))))
        \<longrightarrow> fst (process_image_gen client download index img) = (index, img))"
proof (intro conjI impI)
  show "fst (fst (process_image_gen client download index img)) = index"
    by (rule process_image_gen_index)
next
  assume "\<forall>attempt<5.
      client img attempt = None \<or> client img attempt = Some []
      \<or> (\<exists>t. client img attempt = Some t
            \<and> (extract_url_from_text t = None
                \<or> (\<exists>url. extract_url_from_text t = Some url \<and> download attempt url = None)))"
  then have "\<forall>a<5. attempt_image client download img a = None"
    unfolding attempt_image_None_iff .
  then have "fst (process_page_with_retry client download img 5) = None"
    by (rule process_page_all_fail)
  then show "fst (process_image_gen client download index img) = (index, img)"
    by (cases "process_page_with_retry client download img 5")
       (simp add: process_image_gen_def)
qed

theorem regeneration_fallback_witness:
  "fst (process_image_gen (\<lambda>img n. if n = 0 then None else if n = 1 then Some []
                             else if n = 2 then Some ''no link here''
                             else Some ''http://h/i.png'')
          (\<lambda>n url. None) 4 (pic ''RGB'' 1))
     = (4, pic ''RGB'' 1)
   \<and> extract_url_from_text ''no link here'' = None
   \<and> extract_url_from_text ''http://h/i.png'' = Some ''http://h/i.png''"
proof -
  have a: "extract_url_from_text ''no link here'' = None"
    by code_simp
  have b: "extract_url_from_text ''http://h/i.png'' = Some ''http://h/i.png''"
    by code_simp
  have "fst (process_image_gen (\<lambda>img n. if n = 0 then None else if n = 1 then Some []
                             else if n = 2 then Some ''no link here''
                             else Some ''http://h/i.png'')
          (\<lambda>n url. None) 4 (pic ''RGB'' 1))
     = (4, pic ''RGB'' 1)"
    using regeneration_fallback
      [of "\<lambda>img n. if n = 0 then None else if n = 1 then Some []
                             else if n = 2 then Some ''no link here''
                             else Some ''http://h/i.png''"
          "\<lambda>n url. None" 4 "pic ''RGB'' 1"]
    by (simp add: a b)
  with a b show ?thesis by simp
qed

section \<open>Properties of step 2\<close>

lemma collect_distinct:
  "distinct (map fst rs) \<Longrightarrow> (\<forall>p \<in> set rs. fst p < length slots) \<Longrightarrow>
   \<exists>out. collect keep slots rs = Inr out \<and> length out = length slots
     \<and> (\<forall>i < length slots.
           out ! i = (case map_of rs i of
                        None \<Rightarrow> slots ! i
                      | Some r \<Rightarrow> (case keep r of None \<Rightarrow> slots ! i | Some v \<Rightarrow> v)))"
proof (induction rs arbitrary: slots)
  case Nil
  then show ?case by simp
next
  case (Cons p rs)
  obtain index r where p: "p = (index, r)" by (cases p)
  from Cons.prems p have d: "distinct (map fst rs)" and n: "index \<notin> fst ` set rs"
    and b: "index < length slots" and bs: "\<forall>p \<in> set rs. fst p < length slots"
    by auto
  from n have m: "map_of rs index = None"
    by (simp add: map_of_eq_None_iff)
  show ?case
  proof (cases "keep r")
    case None
    from Cons.IH [OF d bs] obtain out where
      o: "collect keep slots rs = Inr out" "length out = length slots"
      "\<forall>i < length slots.
           out ! i = (case map_of rs i of
                        None \<Rightarrow> slots ! i
                      | Some r \<Rightarrow> (case keep r of None \<Rightarrow> slots ! i | Some v \<Rightarrow> v))"
      by blast
    show ?thesis
      unfolding p using None o m by (intro exI [of _ out]) auto
  next
    case (Some v)
    from bs have bs': "\<forall>p \<in> set rs. fst p < length (slots[index := v])" by simp
    from Cons.IH [OF d bs'] obtain out where
      o: "collect keep (slots[index := v]) rs = Inr out" "length out = length slots"
      "\<forall>i < length slots.
           out ! i = (case map_of rs i of
                        None \<Rightarrow> slots[index := v] ! i
                      | Some r \<Rightarrow> (case keep r of None \<Rightarrow> slots[index := v] ! i | Some v \<Rightarrow> v))"
      by auto
    have "out ! i = (case map_of ((index, r) # rs) i of
                        None \<Rightarrow> slots ! i
                      | Some r \<Rightarrow> (case keep r of None \<Rightarrow> slots ! i | Some v \<Rightarrow> v))"
      if "i < length slots" for i
    proof (cases "i = index")
      case True
      with o(3) that m Some b show ?thesis by simp
    next
      case False
      with o(3) that show ?thesis by (auto split: option.splits)
    qed
    then show ?thesis
      unfolding p using Some o b by (intro exI [of _ out]) auto
  qed
qed

lemma collect_futures:
  assumes perm: "mset done = mset (map (\<lambda>i. (i, f i)) need)"
    and need: "distinct need" "\<forall>i \<in> set need. i < length slots"
  shows "\<exists>out. collect keep slots done = Inr out \<and> length out = length slots
     \<and> (\<forall>i < length slots.
           out ! i = (if i \<in> set need
                      then (case keep (f i) of None \<Rightarrow> slots ! i | Some v \<Rightarrow> v)
                      else slots ! i))"
proof -
  let ?fs = "map (\<lambda>i. (i, f i)) need"
  have mf: "map fst ?fs = need" by (simp add: comp_def)
  from perm have "image_mset fst (mset done) = image_mset fst (mset ?fs)"
    by (rule arg_cong)
  then have "mset (map fst done) = mset (map fst ?fs)"
    by (simp only: mset_map)
  then have dd: "distinct (map fst done)"
    using need(1) mf by (metis mset_eq_imp_distinct_iff)
  from perm have s: "set done = set ?fs" by (rule mset_eq_setD)
  have df: "distinct (map fst ?fs)" using need(1) mf by simp
  have mo: "map_of done = map_of ?fs"
    using dd df s by (simp add: map_of_inject_set)
  have mr: "map_of ?fs i = (if i \<in> set need then Some (f i) else None)" for i
    by (induction need) auto
  from s need(2) have bd: "\<forall>p \<in> set done. fst p < length slots" by auto
  from collect_distinct [OF dd bd, of keep] obtain out where
    o: "collect keep slots done = Inr out" "length out = length slots"
      "\<forall>i < length slots.
           out ! i = (case map_of done i of
                        None \<Rightarrow> slots ! i
                      | Some r \<Rightarrow> (case keep r of None \<Rightarrow> slots ! i | Some v \<Rightarrow> v))"
    by blast
  show ?thesis
    using o unfolding mo mr by (intro exI [of _ out]) auto
qed


lemma process_ocr_fst: "process_ocr extract index img = (index, snd (process_ocr extract index img))"
  by (simp add: process_ocr_def split: option.splits)

lemma process_image_gen_fst:
  "fst (process_image_gen client download index img)
     = (index, snd (fst (process_image_gen client download index img)))"
  by (simp add: process_image_gen_def split: prod.splits option.splits)

text \<open>
  Within one run the order of completion does not matter: for every order in which the
  workers of the two pools complete (each future is yielded once), step 2 hands over one
  pair per index of \<open>images\<close>, in index order, made of what belongs to that index.
\<close>

lemma page_order:
  assumes ocr: "\<And>fs. mset (ocr_completed fs) = mset fs"
    and gen: "\<And>fs. mset (gen_completed fs) = mset fs"
  shows "step2 j ocr_completed gen_completed
           = Inr (map (\<lambda>i. (page_image j i, page_layout j i)) [0..<length (job_images j)])"
proof -
  let ?n = "length (job_images j)"
  let ?layouts = "map (\<lambda>i. case job_layout_file j i of
                                Some loaded \<Rightarrow> loaded
                              | None \<Rightarrow> empty_layout) [0..<?n]"
  let ?processed = "map (\<lambda>i. job_processed_file j i) [0..<?n]"
  let ?need_ocr = "filter (\<lambda>i. job_layout_file j i = None \<and> job_ocr j) [0..<?n]"
  let ?need_gen = "filter (\<lambda>i. job_processed_file j i = None \<and> \<not> job_skip_image_gen j) [0..<?n]"
  let ?f = "\<lambda>i. snd (process_ocr (job_extract j i) i (job_images j ! i))"
  let ?g = "\<lambda>i. snd (fst (process_image_gen (job_client j i) (job_download j i) i
                                  (job_images j ! i)))"
  let ?ocr_futures = "map (\<lambda>i. process_ocr (job_extract j i) i (job_images j ! i)) ?need_ocr"
  let ?gen_futures = "map (\<lambda>i. fst (process_image_gen (job_client j i) (job_download j i) i
                                  (job_images j ! i))) ?need_gen"
  have of: "?ocr_futures = map (\<lambda>i. (i, ?f i)) ?need_ocr"
    using process_ocr_fst by (intro map_cong refl)
  have gf: "?gen_futures = map (\<lambda>i. (i, ?g i)) ?need_gen"
    using process_image_gen_fst by (intro map_cong refl)
  have "mset (ocr_completed ?ocr_futures) = mset (map (\<lambda>i. (i, ?f i)) ?need_ocr)"
    using ocr [of ?ocr_futures] unfolding of .
  from collect_futures [OF this, of ?layouts "\<lambda>layout. layout"]
  obtain layouts where l: "collect (\<lambda>layout. layout) ?layouts (ocr_completed ?ocr_futures) = Inr layouts"
    "length layouts = ?n"
    "\<forall>i < ?n. layouts ! i = (if i \<in> set ?need_ocr
                      then (case ?f i of None \<Rightarrow> ?layouts ! i | Some v \<Rightarrow> v)
                      else ?layouts ! i)"
    by auto
  have "mset (gen_completed ?gen_futures) = mset (map (\<lambda>i. (i, ?g i)) ?need_gen)"
    using gen [of ?gen_futures] unfolding gf .
  from collect_futures [OF this, of ?processed "\<lambda>img. Some (Some img)"]
  obtain processed where p: "collect (\<lambda>img. Some (Some img)) ?processed (gen_completed ?gen_futures) = Inr processed"
    "length processed = ?n"
    "\<forall>i < ?n. processed ! i = (if i \<in> set ?need_gen then Some (?g i) else ?processed ! i)"
    by auto
  have pl: "layouts ! i = page_layout j i" if "i < ?n" for i
    using l(3) that by (auto simp add: page_layout_def split: option.splits)
  let ?final = "if job_skip_image_gen j then map Some (job_images j) else processed"
  have fl: "length ?final = ?n" using p(2) by simp
  have pi: "?final ! i = page_image j i" if "i < ?n" for i
    using p(3) that by (auto simp add: page_image_def split: option.splits)
  have z: "zip ?final layouts = map (\<lambda>i. (page_image j i, page_layout j i)) [0..<?n]"
    using fl l(2) pl pi by (intro nth_equalityI) auto
  have "step2 j ocr_completed gen_completed = Inr (zip ?final layouts)"
    unfolding step2_def Let_def l(1) p(1) by simp
  then show ?thesis unfolding z .
qed


lemma page_order_example:
  "step2 demo_job rev rev
     = Inr [(Some (pic ''RGB'' 1),
             \<lparr>layout_blocks = Merged (JString ''first page''), original_size = Some (2, 2)\<rparr>),
            (Some (pic ''RGB'' 7),
             \<lparr>layout_blocks = Fragments [], original_size = Some (9, 9)\<rparr>),
            (Some (pic ''RGB'' 7), empty_layout)]
   \<and> step2 demo_job (\<lambda>fs. fs) (\<lambda>fs. fs) = step2 demo_job rev rev"
proof -
  have e: "map (\<lambda>i. (page_image demo_job i, page_layout demo_job i))
             [0..<length (job_images demo_job)]
     = [(Some (pic ''RGB'' 1),
             \<lparr>layout_blocks = Merged (JString ''first page''), original_size = Some (2, 2)\<rparr>),
            (Some (pic ''RGB'' 7),
             \<lparr>layout_blocks = Fragments [], original_size = Some (9, 9)\<rparr>),
            (Some (pic ''RGB'' 7), empty_layout)]"
    by code_simp
  have a: "step2 demo_job rev rev
     = Inr (map (\<lambda>i. (page_image demo_job i, page_layout demo_job i))
             [0..<length (job_images demo_job)])"
    by (rule page_order) simp_all
  have b: "step2 demo_job (\<lambda>fs. fs) (\<lambda>fs. fs)
     = Inr (map (\<lambda>i. (page_image demo_job i, page_layout demo_job i))
             [0..<length (job_images demo_job)])"
    by (rule page_order) simp_all
  from a b show ?thesis unfolding e by simp
qed

text \<open>
  C1. The claim is that for every job the pages handed to the assembler are in raster
  extraction order. The list \<open>images\<close> of a rerun is not: step 1 rebuilds it from the
  sorted names of the files \<open>page_{i+1}.png\<close>, whose numbers are not padded, so
  \<open>page_10.png\<close> sorts before \<open>page_2.png\<close>. For a document of ten pages, run twice with
  \<open>--skip-ocr --skip-image-gen\<close>, the second run hands over the pages
  1, 10, 2, 3, 4, 5, 6, 7, 8, 9.
\<close>

theorem resumed_run_page_order:
  "second_run_pages ''doc.pdf'' (map (pic ''RGB'') [1, 2, 3, 4, 5, 6, 7, 8, 9, 10])
     = Some (map (\<lambda>n. Some (pic ''RGB'' n)) [1, 10, 2, 3, 4, 5, 6, 7, 8, 9])"
  by code_simp

end
